theory Spec2Isabelle
  imports Complex_Main "HOL-Library.AList"
begin

section \<open>Data model of the body segmentation tool\<close>

text \<open>
  The model follows \<^verbatim>\<open>src/body_segmentation_tool.py\<close>. Coordinates are numpy
  float64 values in the source; they are modelled as exact reals, and the one
  non-finite value the geometric method can produce (0/0 when the bounding box has
  zero height) is kept as \<open>NaN\<close>. A Python dict is an association list in
  insertion order: \<open>AList.update\<close> overwrites in place or appends at the end,
  \<open>AList.delete\<close> removes the key.
\<close>

type_synonym vec3 = "real \<times> real \<times> real"

type_synonym segmentation_t = "(string \<times> nat list) list"

datatype error = ValueError | KeyError

datatype npfloat = NaN | Val real

record tool =
  vertices :: "vec3 list"
  vertex_normals :: "vec3 list"
  segmentation :: segmentation_t

definition tool_init :: "vec3 list \<Rightarrow> vec3 list \<Rightarrow> tool" where
  "tool_init vs ns = \<lparr>vertices = vs, vertex_normals = ns, segmentation = []\<rparr>"

definition vx :: "vec3 \<Rightarrow> real" where
  "vx v = fst v"

definition vy :: "vec3 \<Rightarrow> real" where
  "vy v = fst (snd v)"

definition vz :: "vec3 \<Rightarrow> real" where
  "vz v = snd (snd v)"

subsection \<open>numpy comparisons and arithmetic with NaN\<close>

fun fle :: "npfloat \<Rightarrow> npfloat \<Rightarrow> bool" where
  "fle (Val a) (Val b) = (a \<le> b)"
| "fle _ _ = False"

fun flt :: "npfloat \<Rightarrow> npfloat \<Rightarrow> bool" where
  "flt (Val a) (Val b) = (a < b)"
| "flt _ _ = False"

fun fsub :: "npfloat \<Rightarrow> npfloat \<Rightarrow> npfloat" where
  "fsub (Val a) (Val b) = Val (a - b)"
| "fsub _ _ = NaN"

fun fabs :: "npfloat \<Rightarrow> npfloat" where
  "fabs (Val a) = Val \<bar>a\<bar>"
| "fabs NaN = NaN"

text \<open>
  Array division \<open>a / b\<close>: numpy does not raise on a zero divisor, 0/0 is NaN.
  (A nonzero dividend over zero would be an infinity; in \<open>geometric_segmentation\<close>
  the divisor is zero only when every dividend is zero, see \<open>zero_height_all_min\<close>.)
\<close>

definition np_div :: "real \<Rightarrow> real \<Rightarrow> npfloat" where
  "np_div a b = (if b = 0 then NaN else Val (a / b))"

subsection \<open>Mesh normalisation\<close>

definition list_sum :: "real list \<Rightarrow> real" where
  "list_sum xs = foldr (+) xs 0"

definition mean_axis0 :: "vec3 list \<Rightarrow> vec3" where
  "mean_axis0 vs =
     (list_sum (map vx vs) / real (length vs),
      list_sum (map vy vs) / real (length vs),
      list_sum (map vz vs) / real (length vs))"

definition vsub :: "vec3 \<Rightarrow> vec3 \<Rightarrow> vec3" where
  "vsub v c = (vx v - vx c, vy v - vy c, vz v - vz c)"

text \<open>\<^verbatim>\<open>_normalize_mesh\<close> replaces \<^verbatim>\<open>self.vertices\<close> by the centred positions (and
  hands them to the mesh object, which no segmenter reads positions from).\<close>

definition normalize_mesh :: "tool \<Rightarrow> tool" where
  "normalize_mesh t =
     (let center = mean_axis0 (vertices t)
      in t\<lparr>vertices := map (\<lambda>v. vsub v center) (vertices t)\<rparr>)"

subsection \<open>Bands and the per-vertex rules\<close>

definition height_ranges :: "(string \<times> real \<times> real) list" where
  "height_ranges =
     [(''body'', 0.45, 0.80),
      (''left_arm'', 0.45, 0.80),
      (''right_arm'', 0.45, 0.80),
      (''left_leg'', 0.0, 0.45),
      (''right_leg'', 0.0, 0.45),
      (''face_internal'', 0.85, 1.0)]"

definition is_valid_for_part :: "vec3 \<Rightarrow> string \<Rightarrow> npfloat \<Rightarrow> bool" where
  "is_valid_for_part vertex part_name height_norm =
     (if part_name = ''left_arm'' then vx vertex < 0
      else if part_name = ''right_arm'' then vx vertex > 0
      else if part_name = ''left_leg'' then vx vertex < 0 \<and> flt height_norm (Val 0.5)
      else if part_name = ''right_leg'' then vx vertex > 0 \<and> flt height_norm (Val 0.5)
      else if part_name = ''face_internal'' then flt (Val 0.85) height_norm
      else if part_name = ''body'' then
        fle (Val 0.45) height_norm \<and> fle height_norm (Val 0.80) \<and> \<bar>vx vertex\<bar> < 0.3
      else True)"

definition band_matches :: "string \<times> real \<times> real \<Rightarrow> vec3 \<Rightarrow> npfloat \<Rightarrow> bool" where
  "band_matches band vertex height_norm =
     (case band of (part_name, min_h, max_h) \<Rightarrow>
        fle (Val min_h) height_norm \<and> fle height_norm (Val max_h)
        \<and> is_valid_for_part vertex part_name height_norm)"

text \<open>The inner \<^verbatim>\<open>for part_name, (min_h, max_h) in height_ranges.items()\<close> with its
  \<^verbatim>\<open>break\<close>: the first band that matches, or nothing (\<^verbatim>\<open>assigned = False\<close>).\<close>

fun first_band :: "(string \<times> real \<times> real) list \<Rightarrow> vec3 \<Rightarrow> npfloat \<Rightarrow> string option" where
  "first_band [] vertex height_norm = None"
| "first_band (band # bands) vertex height_norm =
     (if band_matches band vertex height_norm then Some (fst band)
      else first_band bands vertex height_norm)"

text \<open>Python's \<^verbatim>\<open>min(iterable, key=...)\<close>: the running minimum is replaced only by
  a strictly smaller key, so the first minimal element wins and a NaN key never
  replaces anything; the empty iterable raises ValueError.\<close>

fun py_min_from :: "('a \<Rightarrow> npfloat) \<Rightarrow> 'a \<Rightarrow> 'a list \<Rightarrow> 'a" where
  "py_min_from key best [] = best"
| "py_min_from key best (x # xs) =
     py_min_from key (if flt (key x) (key best) then x else best) xs"

fun py_min :: "('a \<Rightarrow> npfloat) \<Rightarrow> 'a list \<Rightarrow> error + 'a" where
  "py_min key [] = Inl ValueError"
| "py_min key (x # xs) = Inr (py_min_from key x xs)"

text \<open>\<^verbatim>\<open>np.mean(height_ranges[x])\<close>, the midpoint of the band's interval; it is only
  applied to keys of \<open>height_ranges\<close>, so the lookup cannot fail.\<close>

definition range_mean :: "string \<Rightarrow> real" where
  "range_mean part_name =
     (case map_of height_ranges part_name of
        Some (min_h, max_h) \<Rightarrow> (min_h + max_h) / 2
      | None \<Rightarrow> 0)"

definition closest_part :: "npfloat \<Rightarrow> error + string" where
  "closest_part height_norm =
     py_min (\<lambda>x. fabs (fsub height_norm (Val (range_mean x)))) (map fst height_ranges)"

definition assign_part :: "vec3 \<Rightarrow> npfloat \<Rightarrow> error + string" where
  "assign_part vertex height_norm =
     (case first_band height_ranges vertex height_norm of
        Some part_name \<Rightarrow> Inr part_name
      | None \<Rightarrow> closest_part height_norm)"

text \<open>\<^verbatim>\<open>self.segmentation[part_name].append(i)\<close>: the lookup raises KeyError on
  a missing key.\<close>

definition seg_append :: "segmentation_t \<Rightarrow> string \<Rightarrow> nat \<Rightarrow> error + segmentation_t" where
  "seg_append seg part_name i =
     (case map_of seg part_name of
        None \<Rightarrow> Inl KeyError
      | Some xs \<Rightarrow> Inr (AList.update part_name (xs @ [i]) seg))"

fun assign_vertices ::
  "(nat \<times> vec3 \<times> npfloat) list \<Rightarrow> segmentation_t \<Rightarrow> error + segmentation_t" where
  "assign_vertices [] seg = Inr seg"
| "assign_vertices ((i, vertex, height_norm) # rest) seg =
     (case assign_part vertex height_norm of
        Inl e \<Rightarrow> Inl e
      | Inr part_name \<Rightarrow>
          (case seg_append seg part_name i of
             Inl e \<Rightarrow> Inl e
           | Inr seg' \<Rightarrow> assign_vertices rest seg'))"

subsection \<open>Post-processing\<close>

definition min_vertices :: nat where
  "min_vertices = 10"

text \<open>The loop over \<^verbatim>\<open>list(self.segmentation.keys())\<close> that deletes small parts.\<close>

fun remove_small :: "string list \<Rightarrow> segmentation_t \<Rightarrow> error + segmentation_t" where
  "remove_small [] seg = Inr seg"
| "remove_small (part_name # rest) seg =
     (case map_of seg part_name of
        None \<Rightarrow> Inl KeyError
      | Some xs \<Rightarrow>
          remove_small rest
            (if length xs < min_vertices then AList.delete part_name seg else seg))"

definition assigned_vertices :: "segmentation_t \<Rightarrow> nat set" where
  "assigned_vertices seg = set (concat (map snd seg))"

text \<open>\<^verbatim>\<open>set(range(len(self.vertices))) - assigned_vertices\<close>, listed in ascending
  order (the order in which Python lists a set is not fixed; only the members matter
  for what is proved below).\<close>

definition unassigned :: "nat \<Rightarrow> segmentation_t \<Rightarrow> nat list" where
  "unassigned n seg = filter (\<lambda>i. i \<notin> assigned_vertices seg) [0..<n]"

definition post_process_segmentation :: "tool \<Rightarrow> error + tool" where
  "post_process_segmentation t =
     (case remove_small (map fst (segmentation t)) (segmentation t) of
        Inl e \<Rightarrow> Inl e
      | Inr seg \<Rightarrow>
          (let un = unassigned (length (vertices t)) seg
           in if un \<noteq> [] then
                (case map_of seg ''body'' of
                   None \<Rightarrow> Inl KeyError
                 | Some xs \<Rightarrow> Inr (t\<lparr>segmentation := AList.update ''body'' (xs @ un) seg\<rparr>))
              else Inr (t\<lparr>segmentation := seg\<rparr>)))"

subsection \<open>Geometric segmentation\<close>

text \<open>\<^verbatim>\<open>vertices.min(axis=0)[1]\<close> and \<^verbatim>\<open>vertices.max(axis=0)[1]\<close>; numpy raises
  ValueError on an array with no rows.\<close>

fun bbox_min_y :: "vec3 list \<Rightarrow> error + real" where
  "bbox_min_y [] = Inl ValueError"
| "bbox_min_y (v # vs) = Inr (fold (\<lambda>w m. min (vy w) m) vs (vy v))"

fun bbox_max_y :: "vec3 list \<Rightarrow> error + real" where
  "bbox_max_y [] = Inl ValueError"
| "bbox_max_y (v # vs) = Inr (fold (\<lambda>w m. max (vy w) m) vs (vy v))"

definition normalized_heights :: "vec3 list \<Rightarrow> real \<Rightarrow> real \<Rightarrow> npfloat list" where
  "normalized_heights vs bmin height = map (\<lambda>v. np_div (vy v - bmin) height) vs"

definition init_parts :: "segmentation_t \<Rightarrow> segmentation_t" where
  "init_parts seg = fold (\<lambda>part_name s. AList.update part_name [] s) (map fst height_ranges) seg"

text \<open>Everything of \<^verbatim>\<open>geometric_segmentation\<close> before the call of
  \<^verbatim>\<open>_post_process_segmentation\<close>.\<close>

definition geometric_assignment :: "tool \<Rightarrow> error + tool" where
  "geometric_assignment t0 =
     (let t = normalize_mesh t0 in
      case bbox_min_y (vertices t) of
        Inl e \<Rightarrow> Inl e
      | Inr bmin \<Rightarrow>
     (case bbox_max_y (vertices t) of
        Inl e \<Rightarrow> Inl e
      | Inr bmax \<Rightarrow>
     (let height = bmax - bmin;
          hs = normalized_heights (vertices t) bmin height;
          seg0 = init_parts (segmentation t)
      in case assign_vertices (zip [0..<length hs] (zip (vertices t) hs)) seg0 of
           Inl e \<Rightarrow> Inl e
         | Inr seg \<Rightarrow> Inr (t\<lparr>segmentation := seg\<rparr>))))"

text \<open>The method returns \<^verbatim>\<open>self.segmentation\<close>; the model returns the tool, whose
  \<open>segmentation\<close> field is that value.\<close>

definition geometric_segmentation :: "tool \<Rightarrow> error + tool" where
  "geometric_segmentation t0 =
     (case geometric_assignment t0 of
        Inl e \<Rightarrow> Inl e
      | Inr t \<Rightarrow> post_process_segmentation t)"

section \<open>Cluster-based segmentation\<close>

text \<open>
  \<^verbatim>\<open>StandardScaler\<close> and \<^verbatim>\<open>KMeans\<close> are scikit-learn's, not this repository's:
  they are parameters of the model. \<open>fit_transform\<close> returns the fitted scaler and the
  scaled features, \<open>inverse_transform\<close> maps scaled rows back, \<open>fit_predict\<close> is
  \<^verbatim>\<open>KMeans(n_clusters, random_state=42).fit_predict\<close> together with the
  \<^verbatim>\<open>cluster_centers_\<close> it leaves behind (or the exception it raises).
\<close>

type_synonym feature = "vec3 \<times> vec3"

record 's sklearn =
  fit_transform :: "feature list \<Rightarrow> 's \<times> feature list"
  inverse_transform :: "'s \<Rightarrow> feature list \<Rightarrow> feature list"
  fit_predict :: "nat \<Rightarrow> feature list \<Rightarrow> error + nat list \<times> feature list"

text \<open>\<^verbatim>\<open>np.argsort\<close>: the indices in ascending order of their values. Equal values
  are listed in index order here; numpy's default sort does not promise that.\<close>

definition np_argsort :: "real list \<Rightarrow> nat list" where
  "np_argsort hs = sort_key (\<lambda>i. hs ! i) [0..<length hs]"

definition body_parts :: "string list" where
  "body_parts =
     [''left_leg'', ''right_leg'', ''body'', ''left_arm'', ''right_arm'', ''face_internal'']"

fun map_clusters_loop :: "(nat \<times> nat) list \<Rightarrow> (nat \<times> string) list \<Rightarrow> (nat \<times> string) list" where
  "map_clusters_loop [] cluster_to_part = cluster_to_part"
| "map_clusters_loop ((i, cluster_idx) # rest) cluster_to_part =
     map_clusters_loop rest
       (AList.update cluster_idx
          (if i < length body_parts then body_parts ! i else ''body'') cluster_to_part)"

definition centre_heights :: "'s sklearn \<Rightarrow> feature list \<Rightarrow> 's \<Rightarrow> real list" where
  "centre_heights lib cluster_centers scaler =
     map (\<lambda>c. vy (fst c)) (inverse_transform lib scaler cluster_centers)"

definition map_clusters_to_parts ::
  "'s sklearn \<Rightarrow> feature list \<Rightarrow> 's \<Rightarrow> (nat \<times> string) list" where
  "map_clusters_to_parts lib cluster_centers scaler =
     (let heights = centre_heights lib cluster_centers scaler;
          sorted_indices = np_argsort heights
      in map_clusters_loop (enumerate 0 sorted_indices) [])"

fun create_segmentation ::
  "(nat \<times> nat) list \<Rightarrow> (nat \<times> string) list \<Rightarrow> segmentation_t \<Rightarrow> error + segmentation_t" where
  "create_segmentation [] cluster_to_part seg = Inr seg"
| "create_segmentation ((i, label) # rest) cluster_to_part seg =
     (case map_of cluster_to_part label of
        None \<Rightarrow> Inl KeyError
      | Some part_name \<Rightarrow>
          (case seg_append
                  (if map_of seg part_name = None then AList.update part_name [] seg else seg)
                  part_name i of
             Inl e \<Rightarrow> Inl e
           | Inr seg' \<Rightarrow> create_segmentation rest cluster_to_part seg'))"

text \<open>\<^verbatim>\<open>np.column_stack\<close> raises ValueError when the two arrays differ in their
  number of rows.\<close>

definition cluster_based_segmentation :: "'s sklearn \<Rightarrow> tool \<Rightarrow> nat \<Rightarrow> error + tool" where
  "cluster_based_segmentation lib t n_clusters =
     (if length (vertices t) \<noteq> length (vertex_normals t) then Inl ValueError
      else
        (let features = zip (vertices t) (vertex_normals t);
             fitted = fit_transform lib features
         in case fit_predict lib n_clusters (snd fitted) of
              Inl e \<Rightarrow> Inl e
            | Inr (cluster_labels, cluster_centers) \<Rightarrow>
                (let cluster_to_part = map_clusters_to_parts lib cluster_centers (fst fitted)
                 in case create_segmentation (enumerate 0 cluster_labels) cluster_to_part
                           (segmentation t) of
                      Inl e \<Rightarrow> Inl e
                    | Inr seg \<Rightarrow> Inr (t\<lparr>segmentation := seg\<rparr>))))"

section \<open>Transfer segmentation\<close>

text \<open>The reference mesh and the reference segmentation are read from files by
  \<^verbatim>\<open>trimesh.load\<close> and \<^verbatim>\<open>json.load\<close>; the model takes what they return: the
  reference vertex positions and the JSON object as a list of (label, indices) pairs.\<close>

definition euclidean :: "vec3 \<Rightarrow> vec3 \<Rightarrow> real" where
  "euclidean a b = sqrt ((vx a - vx b)\<^sup>2 + (vy a - vy b)\<^sup>2 + (vz a - vz b)\<^sup>2)"

definition cdist :: "vec3 list \<Rightarrow> vec3 list \<Rightarrow> real list list" where
  "cdist xa xb = map (\<lambda>a. map (euclidean a) xb) xa"

text \<open>\<^verbatim>\<open>np.argmin\<close> of one row: the first index of the least value.\<close>

fun argmin_from :: "nat \<Rightarrow> real \<Rightarrow> nat \<Rightarrow> real list \<Rightarrow> nat" where
  "argmin_from best best_val i [] = best"
| "argmin_from best best_val i (x # xs) =
     (if x < best_val then argmin_from i x (Suc i) xs
      else argmin_from best best_val (Suc i) xs)"

fun np_argmin :: "real list \<Rightarrow> error + nat" where
  "np_argmin [] = Inl ValueError"
| "np_argmin (x # xs) = Inr (argmin_from 0 x 1 xs)"

fun argmin_axis1 :: "real list list \<Rightarrow> error + nat list" where
  "argmin_axis1 [] = Inr []"
| "argmin_axis1 (row # rows) =
     (case np_argmin row of
        Inl e \<Rightarrow> Inl e
      | Inr j \<Rightarrow>
          (case argmin_axis1 rows of
             Inl e \<Rightarrow> Inl e
           | Inr js \<Rightarrow> Inr (j # js)))"

definition matching_indices :: "int list \<Rightarrow> nat list \<Rightarrow> nat list" where
  "matching_indices ref_vertices closest_indices =
     map fst (filter (\<lambda>(i, closest_idx). int closest_idx \<in> set ref_vertices)
                (enumerate 0 closest_indices))"

fun transfer_parts ::
  "(string \<times> int list) list \<Rightarrow> nat list \<Rightarrow> segmentation_t \<Rightarrow> segmentation_t" where
  "transfer_parts [] closest_indices seg = seg"
| "transfer_parts ((part_name, ref_vertices) # rest) closest_indices seg =
     transfer_parts rest closest_indices
       (AList.update part_name (matching_indices ref_vertices closest_indices) seg)"

text \<open>\<^verbatim>\<open>np.argmin(distances, axis=1)\<close> raises ValueError when the reference mesh has
  no vertex (the reduced axis is empty), whatever the number of target vertices.\<close>

definition transfer_segmentation ::
  "tool \<Rightarrow> vec3 list \<Rightarrow> (string \<times> int list) list \<Rightarrow> error + tool" where
  "transfer_segmentation t ref_mesh_vertices ref_seg =
     (if ref_mesh_vertices = [] then Inl ValueError
      else
        (case argmin_axis1 (cdist (vertices t) ref_mesh_vertices) of
           Inl e \<Rightarrow> Inl e
         | Inr closest_indices \<Rightarrow>
             Inr (t\<lparr>segmentation := transfer_parts ref_seg closest_indices (segmentation t)\<rparr>)))"

section \<open>Auxiliary notions for the statements\<close>

text \<open>The indices that the assignment loop appends under one label, in loop order.\<close>

definition assigned_to :: "string \<Rightarrow> (nat \<times> vec3 \<times> npfloat) list \<Rightarrow> nat list" where
  "assigned_to p items = map fst (filter (\<lambda>(i, v, h). assign_part v h = Inr p) items)"


text \<open>The vertices that the clustering loop appends under one label.\<close>

definition cluster_members :: "(nat \<times> string) list \<Rightarrow> (nat \<times> nat) list \<Rightarrow> string \<Rightarrow> nat list" where
  "cluster_members cluster_to_part items p =
     map fst (filter (\<lambda>(i, label). map_of cluster_to_part label = Some p) items)"

subsection \<open>Example inputs\<close>

text \<open>scikit-learn at \<^verbatim>\<open>n_clusters = 1\<close>: every sample gets cluster id 0 and there is
  one centre. The labels that \<open>cluster_based_segmentation\<close> then assigns do not depend
  on the scaling or on the centre's coordinates, which are left trivial here.\<close>

definition one_cluster_lib :: "unit sklearn" where
  "one_cluster_lib =
     \<lparr>fit_transform = (\<lambda>features. ((), features)),
      inverse_transform = (\<lambda>scaler centers. centers),
      fit_predict = (\<lambda>n_clusters features.
        Inr (map (\<lambda>f. 0) features, [((0, 0, 0), (0, 0, 0))]))\<rparr>"


text \<open>Twelve vertices on the plane \<open>x = 0\<close>: one at the bottom, one at the top and ten
  at normalised height 0.6.\<close>

definition small_torso_mesh :: "vec3 list" where
  "small_torso_mesh =
     [(0, 0, 0), (0, 1, 0),
      (0, 0.6, 0), (0, 0.6, 1), (0, 0.6, 2), (0, 0.6, 3), (0, 0.6, 4),
      (0, 0.6, 5), (0, 0.6, 6), (0, 0.6, 7), (0, 0.6, 8), (0, 0.6, 9)]"

definition small_torso_normals :: "vec3 list" where
  "small_torso_normals =
     [(0, 0, 1), (0, 0, 1), (0, 0, 1), (0, 0, 1), (0, 0, 1), (0, 0, 1),
      (0, 0, 1), (0, 0, 1), (0, 0, 1), (0, 0, 1), (0, 0, 1), (0, 0, 1)]"

text \<open>Ten vertices of a flat grid: all at the same height.\<close>

definition flat_mesh :: "vec3 list" where
  "flat_mesh =
     [(0, 0, 0), (1, 0, 0), (2, 0, 0), (3, 0, 0), (4, 0, 0),
      (0, 0, 1), (1, 0, 1), (2, 0, 1), (3, 0, 1), (4, 0, 1)]"

section \<open>The per-vertex rules of the geometric method\<close>

lemmas band_defs = assign_part_def closest_part_def height_ranges_def band_matches_def
  is_valid_for_part_def range_mean_def seg_append_def vx_def

lemma range_mean_values:
  "range_mean ''body'' = 0.625" "range_mean ''left_arm'' = 0.625"
  "range_mean ''right_arm'' = 0.625" "range_mean ''left_leg'' = 0.225"
  "range_mean ''right_leg'' = 0.225" "range_mean ''face_internal'' = 0.925"
  by (simp_all add: range_mean_def height_ranges_def)

lemma init_parts_fresh:
  "init_parts [] =
     [(''body'', []), (''left_arm'', []), (''right_arm'', []),
      (''left_leg'', []), (''right_leg'', []), (''face_internal'', [])]"
  by (simp add: init_parts_def height_ranges_def)

lemmas geo_eval = geometric_segmentation_def geometric_assignment_def normalize_mesh_def
  mean_axis0_def list_sum_def vsub_def vy_def vz_def normalized_heights_def np_div_def
  init_parts_fresh band_defs post_process_segmentation_def min_vertices_def unassigned_def
  assigned_vertices_def tool_init_def Let_def





lemma seg_append_Inr:
  "seg_append seg p i = Inr seg' \<Longrightarrow>
   \<exists>xs. map_of seg p = Some xs \<and> seg' = AList.update p (xs @ [i]) seg"
  by (auto simp: seg_append_def split: option.splits)

lemma update_present_keys:
  "map_of al k = Some v \<Longrightarrow> map fst (AList.update k v' al) = map fst al"
  by (induction al) (auto split: if_splits)

lemma assign_vertices_char:
  "assign_vertices items seg0 = Inr seg \<Longrightarrow>
   map fst seg = map fst seg0 \<and>
   (\<forall>p. map_of seg p = map_option (\<lambda>xs. xs @ assigned_to p items) (map_of seg0 p))"
proof (induction items arbitrary: seg0)
  case Nil
  then show ?case by (simp add: assigned_to_def option.map_ident)
next
  case (Cons item items)
  obtain i v h where item: "item = (i, v, h)" by (cases item)
  from Cons.prems item obtain q seg1 where
    q: "assign_part v h = Inr q" and
    app: "seg_append seg0 q i = Inr seg1" and
    rest: "assign_vertices items seg1 = Inr seg"
    by (auto split: sum.splits)
  from seg_append_Inr [OF app] obtain xs where
    xs: "map_of seg0 q = Some xs" and seg1: "seg1 = AList.update q (xs @ [i]) seg0"
    by blast
  from Cons.IH [OF rest] have
    keys: "map fst seg = map fst seg1" and
    look: "\<And>p. map_of seg p = map_option (\<lambda>xs. xs @ assigned_to p items) (map_of seg1 p)"
    by simp_all
  have "map fst seg = map fst seg0"
    using keys seg1 xs by (simp add: update_present_keys)
  moreover have
    "map_of seg p = map_option (\<lambda>xs. xs @ assigned_to p (item # items)) (map_of seg0 p)" for p
  proof (cases "p = q")
    case True
    then show ?thesis
      using look [of p] seg1 xs q item by (simp add: update_conv' assigned_to_def)
  next
    case False
    then have "assigned_to p (item # items) = assigned_to p items"
      using q item by (auto simp: assigned_to_def)
    with False show ?thesis
      using look [of p] seg1 by (simp add: update_conv')
  qed
  ultimately show ?case by blast
qed






section \<open>Transfer by nearest reference vertex\<close>

lemma update_fresh_key:
  "k \<notin> fst ` set al \<Longrightarrow> AList.update k v al = al @ [(k, v)]"
  by (induction al) auto

lemma transfer_parts_lookup:
  "map_of (transfer_parts ref_seg closest seg) p =
     (case map_of (rev ref_seg) p of
        None \<Rightarrow> map_of seg p
      | Some rv \<Rightarrow> Some (matching_indices rv closest))"
proof (induction ref_seg arbitrary: seg)
  case Nil
  then show ?case by simp
next
  case (Cons entry ref_seg)
  obtain q rv where entry: "entry = (q, rv)" by (cases entry)
  show ?case
    by (cases "map_of (rev ref_seg) p")
       (simp_all add: entry Cons.IH update_conv' map_add_def)
qed

lemma transfer_parts_lookup_distinct:
  assumes "distinct (map fst ref_seg)" "(p, rv) \<in> set ref_seg"
  shows "map_of (transfer_parts ref_seg closest seg) p = Some (matching_indices rv closest)"
proof -
  from assms have "map_of (rev ref_seg) p = Some rv"
    by (simp add: distinct_rev rev_map [symmetric])
  then show ?thesis by (simp add: transfer_parts_lookup)
qed

lemma transfer_parts_fresh:
  "distinct (map fst ref_seg) \<Longrightarrow> fst ` set ref_seg \<inter> fst ` set seg = {} \<Longrightarrow>
   transfer_parts ref_seg closest seg =
     seg @ map (\<lambda>(p, rv). (p, matching_indices rv closest)) ref_seg"
proof (induction ref_seg arbitrary: seg)
  case Nil
  then show ?case by simp
next
  case (Cons entry ref_seg)
  obtain q rv where entry: "entry = (q, rv)" by (cases entry)
  from Cons.prems entry have fresh: "q \<notin> fst ` set seg" by auto
  have "fst ` set ref_seg \<inter> fst ` set (seg @ [(q, matching_indices rv closest)]) = {}"
    using Cons.prems entry by auto
  with Cons.IH [of "seg @ [(q, matching_indices rv closest)]"] Cons.prems
  show ?case by (simp add: entry update_fresh_key [OF fresh])
qed

lemma set_matching_indices:
  "set (matching_indices rv closest) = {i. i < length closest \<and> int (closest ! i) \<in> set rv}"
  by (force simp: matching_indices_def in_set_enumerate_eq)

lemma argmin_from_spec:
  "(argmin_from b bv k xs = b \<and> (\<forall>q\<in>set xs. bv \<le> q)) \<or>
   (\<exists>pre m post. xs = pre @ m # post \<and> argmin_from b bv k xs = k + length pre
      \<and> m < bv \<and> (\<forall>q\<in>set pre. m < q) \<and> (\<forall>q\<in>set post. m \<le> q))"
proof (induction xs arbitrary: b bv k)
  case Nil
  then show ?case by simp
next
  case (Cons x xs)
  show ?case
  proof (cases "x < bv")
    case True
    from Cons.IH [of k x "Suc k"] show ?thesis
    proof
      assume a: "argmin_from k x (Suc k) xs = k \<and> (\<forall>q\<in>set xs. x \<le> q)"
      have "x # xs = [] @ x # xs" by simp
      with a True show ?thesis
        by (intro disjI2 exI [of _ "[]"] exI [of _ x] exI [of _ xs]) simp
    next
      assume "\<exists>pre m post. xs = pre @ m # post
        \<and> argmin_from k x (Suc k) xs = Suc k + length pre
        \<and> m < x \<and> (\<forall>q\<in>set pre. m < q) \<and> (\<forall>q\<in>set post. m \<le> q)"
      then obtain pre m post where
        a: "xs = pre @ m # post" "argmin_from k x (Suc k) xs = Suc k + length pre"
           "m < x" "\<forall>q\<in>set pre. m < q" "\<forall>q\<in>set post. m \<le> q"
        by blast
      with True show ?thesis
        by (intro disjI2 exI [of _ "x # pre"] exI [of _ m] exI [of _ post]) auto
    qed
  next
    case False
    from Cons.IH [of b bv "Suc k"] show ?thesis
    proof
      assume "argmin_from b bv (Suc k) xs = b \<and> (\<forall>q\<in>set xs. bv \<le> q)"
      with False show ?thesis by auto
    next
      assume "\<exists>pre m post. xs = pre @ m # post
        \<and> argmin_from b bv (Suc k) xs = Suc k + length pre
        \<and> m < bv \<and> (\<forall>q\<in>set pre. m < q) \<and> (\<forall>q\<in>set post. m \<le> q)"
      then obtain pre m post where
        a: "xs = pre @ m # post" "argmin_from b bv (Suc k) xs = Suc k + length pre"
           "m < bv" "\<forall>q\<in>set pre. m < q" "\<forall>q\<in>set post. m \<le> q"
        by blast
      with False show ?thesis
        by (intro disjI2 exI [of _ "x # pre"] exI [of _ m] exI [of _ post]) auto
    qed
  qed
qed

text \<open>np.argmin returns the first index of a least element.\<close>

lemma np_argmin_spec:
  assumes "xs \<noteq> []"
  shows "\<exists>pre m post. xs = pre @ m # post \<and> np_argmin xs = Inr (length pre)
      \<and> (\<forall>q\<in>set pre. m < q) \<and> (\<forall>q\<in>set post. m \<le> q)"
proof -
  from assms obtain x ys where xs: "xs = x # ys" by (cases xs) auto
  from argmin_from_spec [of 0 x 1 ys] show ?thesis
  proof
    assume "argmin_from 0 x 1 ys = 0 \<and> (\<forall>q\<in>set ys. x \<le> q)"
    then show ?thesis
      unfolding xs by (intro exI [of _ "[]"] exI [of _ x] exI [of _ ys]) simp
  next
    assume "\<exists>pre m post. ys = pre @ m # post \<and> argmin_from 0 x 1 ys = 1 + length pre
      \<and> m < x \<and> (\<forall>q\<in>set pre. m < q) \<and> (\<forall>q\<in>set post. m \<le> q)"
    then obtain pre m post where
      "ys = pre @ m # post" "argmin_from 0 x 1 ys = 1 + length pre"
      "m < x" "\<forall>q\<in>set pre. m < q" "\<forall>q\<in>set post. m \<le> q"
      by blast
    then show ?thesis
      unfolding xs by (intro exI [of _ "x # pre"] exI [of _ m] exI [of _ post]) auto
  qed
qed



lemma argmin_axis1_total:
  "\<forall>row\<in>set rows. row \<noteq> [] \<Longrightarrow>
   \<exists>js. argmin_axis1 rows = Inr js \<and> length js = length rows
      \<and> (\<forall>i<length rows. js ! i < length (rows ! i))"
proof (induction rows)
  case Nil
  then show ?case by simp
next
  case (Cons row rows)
  then obtain js where js: "argmin_axis1 rows = Inr js" "length js = length rows"
    "\<forall>i<length rows. js ! i < length (rows ! i)" by auto
  from Cons.prems have "row \<noteq> []" by simp
  from np_argmin_spec [OF this] obtain j where j: "np_argmin row = Inr j" "j < length row"
    by auto
  have "\<forall>i<length (row # rows). (j # js) ! i < length ((row # rows) ! i)"
    using js(3) j(2) by (auto simp: nth_Cons split: nat.splits)
  with js j show ?case by simp
qed




lemma argmin_axis1_length:
  "argmin_axis1 rows = Inr js \<Longrightarrow> length js = length rows"
  by (induction rows arbitrary: js) (auto split: sum.splits)

lemma transfer_segmentation_Inr:
  assumes "transfer_segmentation t refv ref_seg = Inr t'"
  shows "\<exists>closest. argmin_axis1 (cdist (vertices t) refv) = Inr closest
           \<and> length closest = length (vertices t)
           \<and> t' = t\<lparr>segmentation := transfer_parts ref_seg closest (segmentation t)\<rparr>"
proof -
  from assms obtain closest where
    c: "argmin_axis1 (cdist (vertices t) refv) = Inr closest" and
    t': "t' = t\<lparr>segmentation := transfer_parts ref_seg closest (segmentation t)\<rparr>"
    by (auto simp: transfer_segmentation_def split: if_splits sum.splits)
  from argmin_axis1_length [OF c] have "length closest = length (vertices t)"
    by (simp add: cdist_def)
  with c t' show ?thesis by blast
qed

lemma transfer_segmentation_total:
  assumes "refv \<noteq> []"
  shows "\<exists>closest. argmin_axis1 (cdist (vertices t) refv) = Inr closest
           \<and> length closest = length (vertices t)
           \<and> transfer_segmentation t refv ref_seg =
               Inr (t\<lparr>segmentation := transfer_parts ref_seg closest (segmentation t)\<rparr>)"
proof -
  have "\<forall>row\<in>set (cdist (vertices t) refv). row \<noteq> []"
    using assms by (auto simp: cdist_def)
  from argmin_axis1_total [OF this] obtain closest where
    c: "argmin_axis1 (cdist (vertices t) refv) = Inr closest"
    "length closest = length (cdist (vertices t) refv)" by blast
  then show ?thesis
    using assms by (simp add: transfer_segmentation_def cdist_def)
qed

lemmas transfer_eval = transfer_segmentation_def tool_init_def cdist_def euclidean_def
  vx_def vy_def vz_def matching_indices_def enumerate_eq_zip




text \<open>
  Claim C9 (as amended). With a non-empty reference mesh \<open>transfer_segmentation\<close>
  completes; the labels of the result on a fresh tool are exactly the labels of the
  reference segmentation, and a target vertex whose nearest reference vertex is in no
  reference label's list is in no list of the result. No bucket and no count records
  it.
\<close>

theorem transfer_unassigned_absent:
  assumes "refv \<noteq> []" and "distinct (map fst ref_seg)" and "i < length vs"
  shows "\<exists>t' closest.
           transfer_segmentation (tool_init vs ns) refv ref_seg = Inr t'
         \<and> argmin_axis1 (cdist vs refv) = Inr closest
         \<and> map fst (segmentation t') = map fst ref_seg
         \<and> ((\<forall>(p, rv)\<in>set ref_seg. int (closest ! i) \<notin> set rv)
              \<longrightarrow> i \<notin> assigned_vertices (segmentation t'))"
proof -
  from transfer_segmentation_total [OF assms(1), of "tool_init vs ns" ref_seg]
  obtain closest where
    c: "argmin_axis1 (cdist vs refv) = Inr closest" and
    len: "length closest = length vs" and
    r: "transfer_segmentation (tool_init vs ns) refv ref_seg =
          Inr ((tool_init vs ns)\<lparr>segmentation := transfer_parts ref_seg closest []\<rparr>)"
    by (auto simp: tool_init_def)
  have seg: "transfer_parts ref_seg closest [] =
               map (\<lambda>(p, rv). (p, matching_indices rv closest)) ref_seg"
    using transfer_parts_fresh [OF assms(2), of "[]" closest] by simp
  have keys: "map fst (transfer_parts ref_seg closest []) = map fst ref_seg"
    by (simp add: seg case_prod_unfold comp_def)
  have "i \<notin> assigned_vertices (transfer_parts ref_seg closest [])"
    if "\<forall>(p, rv)\<in>set ref_seg. int (closest ! i) \<notin> set rv"
    using that by (auto simp: seg assigned_vertices_def set_matching_indices)
  with c r keys show ?thesis by auto
qed

text \<open>The result for two vertices of which only the first is covered by the
  reference segmentation: vertex 1 appears nowhere in it.\<close>

theorem transfer_unassigned_counterexample:
  "transfer_segmentation (tool_init [(0, 0, 0), (1, 0, 0)] []) [(0, 0, 0), (1, 0, 0)]
     [(''body'', [0])] =
   Inr \<lparr>vertices = [(0, 0, 0), (1, 0, 0)], vertex_normals = [],
        segmentation = [(''body'', [0])]\<rparr>"
  by (simp add: transfer_eval)

theorem transfer_unassigned_absent_witness:
  "(\<exists>t' closest.
      transfer_segmentation (tool_init [(0, 0, 0), (1, 0, 0)] []) [(0, 0, 0), (1, 0, 0)]
        [(''body'', [0])] = Inr t'
    \<and> argmin_axis1 (cdist [(0, 0, 0), (1, 0, 0)] [(0, 0, 0), (1, 0, 0)]) = Inr closest
    \<and> closest = [0, 1]
    \<and> map fst (segmentation t') = [''body'']
    \<and> 1 \<notin> assigned_vertices (segmentation t'))"
proof -
  let ?vs = "[(0, 0, 0), (1, 0, 0)] :: vec3 list"
  let ?ref = "[(''body'', [0])] :: (string \<times> int list) list"
  have h1: "?vs \<noteq> []" by simp
  have h2: "distinct (map fst ?ref)" by simp
  have h3: "1 < length ?vs" by simp
  have c: "argmin_axis1 (cdist ?vs ?vs) = Inr [0, 1]" by (simp add: transfer_eval)
  from transfer_unassigned_absent [OF h1 h2 h3, of "[]"] c show ?thesis
    by auto
qed

text \<open>
  Claim C10 (as amended). Each reference label is filled by its own membership test:
  a target vertex is listed under a label exactly when that label's reference list
  contains the vertex's nearest reference index. A reference index contained in
  several labels therefore puts the target vertex under every one of them.
\<close>

theorem transfer_overlap_all_labels:
  assumes "transfer_segmentation t refv ref_seg = Inr t'"
    and "distinct (map fst ref_seg)"
    and "argmin_axis1 (cdist (vertices t) refv) = Inr closest"
    and "i < length (vertices t)"
    and "(p, rv) \<in> set ref_seg"
  shows "\<exists>xs. map_of (segmentation t') p = Some xs
           \<and> (i \<in> set xs \<longleftrightarrow> int (closest ! i) \<in> set rv)"
proof -
  from transfer_segmentation_Inr [OF assms(1)] assms(3) have
    len: "length closest = length (vertices t)" and
    t': "t' = t\<lparr>segmentation := transfer_parts ref_seg closest (segmentation t)\<rparr>"
    by auto
  have "map_of (segmentation t') p = Some (matching_indices rv closest)"
    using assms(2,5) by (simp add: t' transfer_parts_lookup_distinct)
  moreover have "i \<in> set (matching_indices rv closest) \<longleftrightarrow> int (closest ! i) \<in> set rv"
    using assms(4) len by (simp add: set_matching_indices)
  ultimately show ?thesis by blast
qed

text \<open>Reference vertex 1 is listed under both labels; so is target vertex 1, not
  only under the first of them.\<close>

theorem transfer_overlap_counterexample:
  "transfer_segmentation (tool_init [(0, 0, 0), (1, 0, 0)] []) [(0, 0, 0), (1, 0, 0)]
     [(''body'', [0, 1]), (''left_arm'', [1])] =
   Inr \<lparr>vertices = [(0, 0, 0), (1, 0, 0)], vertex_normals = [],
        segmentation = [(''body'', [0, 1]), (''left_arm'', [1])]\<rparr>"
  by (simp add: transfer_eval)

theorem transfer_overlap_all_labels_witness:
  "transfer_segmentation (tool_init [(0, 0, 0), (1, 0, 0)] []) [(0, 0, 0), (1, 0, 0)]
     [(''body'', [0, 1]), (''left_arm'', [1])] =
   Inr \<lparr>vertices = [(0, 0, 0), (1, 0, 0)], vertex_normals = [],
        segmentation = [(''body'', [0, 1]), (''left_arm'', [1])]\<rparr>
   \<and> argmin_axis1 (cdist [(0, 0, 0), (1, 0, 0)] [(0, 0, 0), (1, 0, 0)]) = Inr [0, 1]
   \<and> (\<exists>xs. map_of [(''body'', [0, 1]), (''left_arm'', [1::nat])] ''left_arm'' = Some xs
          \<and> 1 \<in> set xs)"
proof -
  let ?t = "tool_init [(0, 0, 0), (1, 0, 0)] []"
  let ?refv = "[(0, 0, 0), (1, 0, 0)] :: vec3 list"
  let ?ref = "[(''body'', [0, 1]), (''left_arm'', [1])] :: (string \<times> int list) list"
  let ?t' = "\<lparr>vertices = [(0, 0, 0), (1, 0, 0)], vertex_normals = [],
        segmentation = [(''body'', [0, 1]), (''left_arm'', [1])]\<rparr>"
  have h1: "transfer_segmentation ?t ?refv ?ref = Inr ?t'" by (simp add: transfer_eval)
  have h2: "distinct (map fst ?ref)" by simp
  have h3: "argmin_axis1 (cdist (vertices ?t) ?refv) = Inr [0, 1]"
    by (simp add: transfer_eval)
  have h4: "1 < length (vertices ?t)" by (simp add: tool_init_def)
  have h5: "(''left_arm'', [1]) \<in> set ?ref" by simp
  from transfer_overlap_all_labels [OF h1 h2 h3 h4 h5]
  have "\<exists>xs. map_of (segmentation ?t') ''left_arm'' = Some xs \<and> 1 \<in> set xs" by simp
  with h1 h3 show ?thesis by (simp add: tool_init_def)
qed

section \<open>Cluster labels\<close>






lemma create_segmentation_step:
  assumes "map_of c2p label = Some q"
  shows "\<exists>seg1. seg_append (if map_of seg q = None then AList.update q [] seg else seg) q i
            = Inr seg1
        \<and> map_of seg1 = (map_of seg)(q \<mapsto> (case map_of seg q of None \<Rightarrow> [] | Some xs \<Rightarrow> xs) @ [i])
        \<and> fst ` set seg1 = insert q (fst ` set seg)"
  by (cases "map_of seg q")
     (auto simp: seg_append_def update_conv' dom_update fun_upd_idem_iff intro!: ext
           dest: map_of_SomeD weak_map_of_SomeI)

lemma create_segmentation_char:
  "create_segmentation items c2p seg = Inr r \<Longrightarrow>
   map_of r p =
     (case map_of seg p of
        None \<Rightarrow> (if cluster_members c2p items p = [] then None
                  else Some (cluster_members c2p items p))
      | Some xs \<Rightarrow> Some (xs @ cluster_members c2p items p))"
proof (induction items arbitrary: seg)
  case Nil
  then show ?case by (auto simp: cluster_members_def split: option.splits)
next
  case (Cons item items)
  obtain i label where item: "item = (i, label)" by (cases item)
  from Cons.prems item obtain q where q: "map_of c2p label = Some q"
    by (auto split: option.splits)
  from create_segmentation_step [OF q, of seg i] obtain seg1 where
    app: "seg_append (if map_of seg q = None then AList.update q [] seg else seg) q i = Inr seg1"
    and look: "map_of seg1 = (map_of seg)(q \<mapsto> (case map_of seg q of None \<Rightarrow> [] | Some xs \<Rightarrow> xs) @ [i])"
    by blast
  from Cons.prems item q app have rest: "create_segmentation items c2p seg1 = Inr r"
    by simp
  have mem: "cluster_members c2p (item # items) p =
              (if p = q then i # cluster_members c2p items p else cluster_members c2p items p)"
    using q item by (auto simp: cluster_members_def)
  show ?case
    using Cons.IH [OF rest] look mem
    by (auto split: option.splits)
qed

lemma create_segmentation_success:
  "(\<exists>r. create_segmentation items c2p seg = Inr r) \<longleftrightarrow>
   (\<forall>(i, label)\<in>set items. map_of c2p label \<noteq> None)"
proof (induction items arbitrary: seg)
  case Nil
  then show ?case by simp
next
  case (Cons item items)
  obtain i label where item: "item = (i, label)" by (cases item)
  show ?case
  proof (cases "map_of c2p label")
    case None
    with item show ?thesis by auto
  next
    case (Some q)
    from create_segmentation_step [OF Some, of seg i] obtain seg1 where
      app: "seg_append (if map_of seg q = None then AList.update q [] seg else seg) q i = Inr seg1"
      by blast
    with Some item Cons.IH [of seg1] show ?thesis by simp
  qed
qed


lemma cluster_based_segmentation_Inr:
  assumes "cluster_based_segmentation lib t k = Inr t'"
  shows "\<exists>labels centers seg.
           fit_predict lib k (snd (fit_transform lib (zip (vertices t) (vertex_normals t))))
             = Inr (labels, centers)
         \<and> create_segmentation (enumerate 0 labels)
             (map_clusters_to_parts lib centers
                (fst (fit_transform lib (zip (vertices t) (vertex_normals t)))))
             (segmentation t) = Inr seg
         \<and> t' = t\<lparr>segmentation := seg\<rparr>"
  using assms
  by (auto simp: cluster_based_segmentation_def Let_def split: if_splits sum.splits prod.splits)



lemmas cluster_eval = cluster_based_segmentation_def one_cluster_lib_def tool_init_def
  map_clusters_to_parts_def centre_heights_def np_argsort_def body_parts_def seg_append_def
  enumerate_eq_zip vy_def



section \<open>State carried between segmenter calls\<close>

text \<open>
  Claim C7 (as amended). \<open>cluster_based_segmentation\<close> accumulates into the
  segmentation stored in the tool: when the call succeeds on the instance with an
  empty segmentation, it succeeds on the instance as it is, and every label of the
  result holds the list stored before the call followed by the list that the call on
  the empty segmentation yields; stored labels that the call does not produce are
  kept. The result is the freshly constructed one only when nothing was stored.
\<close>

theorem cluster_accumulates:
  assumes "cluster_based_segmentation lib (t\<lparr>segmentation := []\<rparr>) k = Inr tf"
  shows "\<exists>ts. cluster_based_segmentation lib t k = Inr ts
           \<and> (\<forall>p. map_of (segmentation ts) p =
                 (case map_of (segmentation t) p of
                    None \<Rightarrow> map_of (segmentation tf) p
                  | Some xs \<Rightarrow>
                      Some (xs @ (case map_of (segmentation tf) p of
                                    None \<Rightarrow> [] | Some ys \<Rightarrow> ys))))"
proof -
  let ?fitted = "fit_transform lib (zip (vertices t) (vertex_normals t))"
  from cluster_based_segmentation_Inr [OF assms] obtain labels cs segf where
    fp: "fit_predict lib k (snd ?fitted) = Inr (labels, cs)" and
    crf: "create_segmentation (enumerate 0 labels)
            (map_clusters_to_parts lib cs (fst ?fitted)) [] = Inr segf" and
    tf: "tf = t\<lparr>segmentation := segf\<rparr>"
    by auto
  let ?c2p = "map_clusters_to_parts lib cs (fst ?fitted)"
  let ?items = "enumerate 0 labels"
  from assms have len: "length (vertices t) = length (vertex_normals t)"
    by (auto simp: cluster_based_segmentation_def split: if_splits)
  from crf have "\<forall>(i, label)\<in>set ?items. map_of ?c2p label \<noteq> None"
    using create_segmentation_success [of ?items ?c2p "[]"] by blast
  then obtain segs where
    crs: "create_segmentation ?items ?c2p (segmentation t) = Inr segs"
    using create_segmentation_success [of ?items ?c2p "segmentation t"] by blast
  have run: "cluster_based_segmentation lib t k = Inr (t\<lparr>segmentation := segs\<rparr>)"
    using len fp crs by (simp add: cluster_based_segmentation_def Let_def)
  have sf: "segmentation tf = segf" by (simp add: tf)
  have "map_of segs p =
          (case map_of (segmentation t) p of
             None \<Rightarrow> map_of (segmentation tf) p
           | Some xs \<Rightarrow>
               Some (xs @ (case map_of (segmentation tf) p of None \<Rightarrow> [] | Some ys \<Rightarrow> ys)))"
    for p
    unfolding sf
    using create_segmentation_char [OF crs, of p] create_segmentation_char [OF crf, of p]
    by (auto split: option.splits if_splits)
  with run show ?thesis by simp
qed

text \<open>After \<open>geometric_segmentation\<close> on the same instance the clustering result
  still holds the body label of the geometric run; alone on a fresh instance it has
  the single label left_leg.\<close>

theorem stateless_counterexample:
  "geometric_segmentation (tool_init small_torso_mesh small_torso_normals) =
     Inr ((normalize_mesh (tool_init small_torso_mesh small_torso_normals))
            \<lparr>segmentation := [(''body'', [2, 3, 4, 5, 6, 7, 8, 9, 10, 11, 0, 1])]\<rparr>)
   \<and> cluster_based_segmentation one_cluster_lib
       ((normalize_mesh (tool_init small_torso_mesh small_torso_normals))
          \<lparr>segmentation := [(''body'', [2, 3, 4, 5, 6, 7, 8, 9, 10, 11, 0, 1])]\<rparr>) 1 =
     Inr ((normalize_mesh (tool_init small_torso_mesh small_torso_normals))
            \<lparr>segmentation :=
               [(''body'', [2, 3, 4, 5, 6, 7, 8, 9, 10, 11, 0, 1]),
                (''left_leg'', [0, 1, 2, 3, 4, 5, 6, 7, 8, 9, 10, 11])]\<rparr>)
   \<and> cluster_based_segmentation one_cluster_lib
       (tool_init small_torso_mesh small_torso_normals) 1 =
     Inr ((tool_init small_torso_mesh small_torso_normals)
            \<lparr>segmentation := [(''left_leg'', [0, 1, 2, 3, 4, 5, 6, 7, 8, 9, 10, 11])]\<rparr>)"
  by (simp add: geo_eval cluster_eval small_torso_mesh_def small_torso_normals_def)

theorem cluster_accumulates_witness:
  "cluster_based_segmentation one_cluster_lib
     \<lparr>vertices = [(0, 0, 0), (0, 1, 0)], vertex_normals = [(0, 0, 1), (0, 0, 1)],
      segmentation = []\<rparr> 1 =
   Inr \<lparr>vertices = [(0, 0, 0), (0, 1, 0)], vertex_normals = [(0, 0, 1), (0, 0, 1)],
        segmentation = [(''left_leg'', [0, 1])]\<rparr>
   \<and> (\<exists>ts. cluster_based_segmentation one_cluster_lib
        \<lparr>vertices = [(0, 0, 0), (0, 1, 0)], vertex_normals = [(0, 0, 1), (0, 0, 1)],
         segmentation = [(''left_leg'', [7]), (''body'', [8])]\<rparr> 1 = Inr ts
      \<and> map_of (segmentation ts) ''left_leg'' = Some [7, 0, 1]
      \<and> map_of (segmentation ts) ''body'' = Some [8])"
proof -
  let ?t = "\<lparr>vertices = [(0, 0, 0), (0, 1, 0)], vertex_normals = [(0, 0, 1), (0, 0, 1)],
         segmentation = [(''left_leg'', [7]), (''body'', [8])]\<rparr>"
  let ?tf = "\<lparr>vertices = [(0, 0, 0), (0, 1, 0)], vertex_normals = [(0, 0, 1), (0, 0, 1)],
        segmentation = [(''left_leg'', [0, 1])]\<rparr>"
  have h: "cluster_based_segmentation one_cluster_lib (?t\<lparr>segmentation := []\<rparr>) 1 = Inr ?tf"
    by (simp add: cluster_eval)
  from cluster_accumulates [OF h] obtain ts where
    ts: "cluster_based_segmentation one_cluster_lib ?t 1 = Inr ts" and
    look: "\<And>p. map_of (segmentation ts) p =
             (case map_of (segmentation ?t) p of
                None \<Rightarrow> map_of (segmentation ?tf) p
              | Some xs \<Rightarrow>
                  Some (xs @ (case map_of (segmentation ?tf) p of
                                None \<Rightarrow> [] | Some ys \<Rightarrow> ys)))"
    by blast
  have "map_of (segmentation ts) ''left_leg'' = Some [7, 0, 1]"
    "map_of (segmentation ts) ''body'' = Some [8]"
    by (simp_all add: look)
  with ts h show ?thesis by auto
qed

section \<open>The geometric method as a whole\<close>

subsection \<open>Bounding box, degenerate heights, totality of the assignment\<close>

lemma fold_min_props:
  "fold (\<lambda>w m. min (vy w) m) vs a \<le> a
   \<and> (\<forall>v\<in>set vs. fold (\<lambda>w m. min (vy w) m) vs a \<le> vy v)
   \<and> fold (\<lambda>w m. min (vy w) m) vs a \<in> insert a (vy ` set vs)"
proof (induction vs arbitrary: a)
  case Nil
  then show ?case by simp
next
  case (Cons w vs)
  from Cons.IH [of "min (vy w) a"] show ?case
    by (auto simp: min_def split: if_splits)
qed

lemma fold_max_props:
  "a \<le> fold (\<lambda>w m. max (vy w) m) vs a
   \<and> (\<forall>v\<in>set vs. vy v \<le> fold (\<lambda>w m. max (vy w) m) vs a)
   \<and> fold (\<lambda>w m. max (vy w) m) vs a \<in> insert a (vy ` set vs)"
proof (induction vs arbitrary: a)
  case Nil
  then show ?case by simp
next
  case (Cons w vs)
  from Cons.IH [of "max (vy w) a"] show ?case
    by (auto simp: max_def split: if_splits)
qed

lemma bbox_min_y_props:
  assumes "bbox_min_y vs = Inr m"
  shows "\<forall>v\<in>set vs. m \<le> vy v" and "m \<in> vy ` set vs"
proof -
  from assms obtain u us where split: "vs = u # us"
    and val: "m = fold (\<lambda>w b. min (vy w) b) us (vy u)"
    by (cases vs) auto
  from fold_min_props [where vs = us and a = "vy u"] show "\<forall>v\<in>set vs. m \<le> vy v" "m \<in> vy ` set vs"
    unfolding split val by auto
qed

lemma bbox_max_y_props:
  assumes "bbox_max_y vs = Inr m"
  shows "\<forall>v\<in>set vs. vy v \<le> m" and "m \<in> vy ` set vs"
proof -
  from assms obtain u us where split: "vs = u # us"
    and val: "m = fold (\<lambda>w b. max (vy w) b) us (vy u)"
    by (cases vs) auto
  from fold_max_props [where vs = us and a = "vy u"] show "\<forall>v\<in>set vs. vy v \<le> m" "m \<in> vy ` set vs"
    unfolding split val by auto
qed

text \<open>The height is never negative, and it is zero only when every vertex lies at the
  minimum: the division then is 0/0 for every vertex.\<close>

lemma zero_height_all_min:
  assumes "bbox_min_y vs = Inr bmin" "bbox_max_y vs = Inr bmax" "bmax - bmin \<le> 0"
  shows "bmax - bmin = 0" and "\<forall>v\<in>set vs. vy v - bmin = 0"
proof -
  from bbox_min_y_props [OF assms(1)] bbox_max_y_props [OF assms(2)]
  have lo: "\<forall>v\<in>set vs. bmin \<le> vy v" and hi: "\<forall>v\<in>set vs. vy v \<le> bmax"
    and "bmax \<in> vy ` set vs" by auto
  then have "bmin \<le> bmax" by auto
  with assms(3) show "bmax - bmin = 0" by simp
  with lo hi show "\<forall>v\<in>set vs. vy v - bmin = 0" by fastforce
qed

lemma normalized_heights_flat:
  "normalized_heights vs bmin 0 = map (\<lambda>v. NaN) vs"
  by (simp add: normalized_heights_def np_div_def)

lemma assign_part_NaN: "assign_part v NaN = Inr ''body''"
  by (simp add: band_defs)

lemma py_min_from_mem: "py_min_from key b xs \<in> set (b # xs)"
  by (induction xs arbitrary: b) auto

lemma first_band_mem: "first_band bands v h = Some p \<Longrightarrow> p \<in> fst ` set bands"
  by (induction bands) (auto split: if_splits)

lemma assign_part_total: "\<exists>p. assign_part v h = Inr p \<and> p \<in> fst ` set height_ranges"
proof (cases "first_band height_ranges v h")
  case None
  obtain k ks where ks: "map fst height_ranges = k # ks"
    by (simp add: height_ranges_def)
  have "py_min_from (\<lambda>x. fabs (fsub h (Val (range_mean x)))) k ks \<in> set (k # ks)"
    by (rule py_min_from_mem)
  then have "py_min_from (\<lambda>x. fabs (fsub h (Val (range_mean x)))) k ks \<in> fst ` set height_ranges"
    unfolding ks [symmetric] by simp
  with None ks show ?thesis by (simp add: assign_part_def closest_part_def)
next
  case (Some p)
  with first_band_mem [OF Some] show ?thesis by (simp add: assign_part_def)
qed

lemma assign_vertices_total:
  "fst ` set height_ranges \<subseteq> fst ` set seg0 \<Longrightarrow> \<exists>seg. assign_vertices items seg0 = Inr seg"
proof (induction items arbitrary: seg0)
  case Nil
  then show ?case by simp
next
  case (Cons item items)
  obtain i v h where item: "item = (i, v, h)" by (cases item)
  from assign_part_total [of v h] obtain p where
    p: "assign_part v h = Inr p" "p \<in> fst ` set height_ranges" by blast
  with Cons.prems have "p \<in> fst ` set seg0" by auto
  then obtain xs where xs: "map_of seg0 p = Some xs"
    by (metis domD dom_map_of_conv_image_fst)
  let ?seg1 = "AList.update p (xs @ [i]) seg0"
  have "fst ` set height_ranges \<subseteq> fst ` set ?seg1"
    using Cons.prems by (auto simp: dom_update)
  from Cons.IH [OF this] obtain seg where "assign_vertices items ?seg1 = Inr seg" by blast
  with item p xs show ?case by (simp add: seg_append_def)
qed

lemma init_parts_keys: "fst ` set height_ranges \<subseteq> fst ` set (init_parts seg)"
  by (simp add: init_parts_def height_ranges_def dom_update)

lemma alist_from_keys:
  "distinct (map fst al) \<Longrightarrow> al = map (\<lambda>k. (k, the (map_of al k))) (map fst al)"
proof (induction al)
  case Nil
  then show ?case by simp
next
  case (Cons entry al)
  obtain a b where entry: "entry = (a, b)" by (cases entry)
  from Cons.prems entry have fresh: "a \<notin> fst ` set al" and d: "distinct (map fst al)"
    by auto
  have "map (\<lambda>k. (k, the (map_of (entry # al) k))) (map fst al) =
        map (\<lambda>k. (k, the (map_of al k))) (map fst al)"
    using fresh by (intro map_cong) (auto simp: entry)
  with Cons.IH [OF d] show ?case by (simp add: entry)
qed

subsection \<open>What post-processing does\<close>

lemma assigned_to_distinct:
  "distinct (map fst items) \<Longrightarrow> distinct (assigned_to p items)"
  by (simp add: assigned_to_def distinct_map_filter)

lemma assigned_to_subset: "set (assigned_to p items) \<subseteq> set (map fst items)"
  by (auto simp: assigned_to_def)

lemma assigned_to_disjoint:
  assumes "distinct (map fst items)" "p \<noteq> q"
  shows "set (assigned_to p items) \<inter> set (assigned_to q items) = {}"
proof (rule ccontr)
  assume "set (assigned_to p items) \<inter> set (assigned_to q items) \<noteq> {}"
  then obtain i where "i \<in> set (assigned_to p items)" "i \<in> set (assigned_to q items)"
    by auto
  then obtain v h v' h' where
    a: "(i, v, h) \<in> set items" "assign_part v h = Inr p" and
    b: "(i, v', h') \<in> set items" "assign_part v' h' = Inr q"
    by (auto simp: assigned_to_def)
  from eq_key_imp_eq_value [OF assms(1) a(1) b(1)] have "v = v'" "h = h'" by auto
  with a b assms(2) show False by simp
qed

lemma remove_small_filter_gen:
  "distinct (map fst seg) \<Longrightarrow> set ks \<subseteq> fst ` set seg \<Longrightarrow> distinct ks \<Longrightarrow>
   remove_small ks seg =
     Inr (filter (\<lambda>(p, xs). p \<in> set ks \<longrightarrow> \<not> length xs < min_vertices) seg)"
proof (induction ks arbitrary: seg)
  case Nil
  then show ?case by simp
next
  case (Cons k ks)
  from Cons.prems have "k \<in> fst ` set seg" by simp
  then obtain xs where xs: "map_of seg k = Some xs"
    by (metis domD dom_map_of_conv_image_fst)
  have kxs: "(p, ys) \<in> set seg \<Longrightarrow> p = k \<Longrightarrow> ys = xs" for p ys
    using Cons.prems(1) xs by (metis map_of_is_SomeI option.inject)
  show ?case
  proof (cases "length xs < min_vertices")
    case True
    let ?seg' = "AList.delete k seg"
    have d: "distinct (map fst ?seg')" using Cons.prems(1) by (simp add: distinct_delete)
    have sub: "set ks \<subseteq> fst ` set ?seg'"
      using Cons.prems(2,3) by (auto simp: AList.delete_eq image_iff) force
    have "remove_small ks ?seg' =
            Inr (filter (\<lambda>(p, xs). p \<in> set ks \<longrightarrow> \<not> length xs < min_vertices) ?seg')"
      using Cons.IH [OF d sub] Cons.prems(3) by simp
    moreover have
      "filter (\<lambda>(p, xs). p \<in> set ks \<longrightarrow> \<not> length xs < min_vertices) ?seg' =
       filter (\<lambda>(p, xs). p \<in> set (k # ks) \<longrightarrow> \<not> length xs < min_vertices) seg"
      unfolding AList.delete_eq filter_filter
      using True kxs by (intro filter_cong) auto
    ultimately show ?thesis using xs True by simp
  next
    case False
    have sub: "set ks \<subseteq> fst ` set seg" using Cons.prems(2) by simp
    have "remove_small ks seg =
            Inr (filter (\<lambda>(p, xs). p \<in> set ks \<longrightarrow> \<not> length xs < min_vertices) seg)"
      using Cons.IH [OF Cons.prems(1) sub] Cons.prems(3) by simp
    moreover have
      "filter (\<lambda>(p, xs). p \<in> set ks \<longrightarrow> \<not> length xs < min_vertices) seg =
       filter (\<lambda>(p, xs). p \<in> set (k # ks) \<longrightarrow> \<not> length xs < min_vertices) seg"
      using False kxs by (intro filter_cong) auto
    ultimately show ?thesis using xs False by simp
  qed
qed

lemma remove_small_filter:
  assumes "distinct (map fst seg)"
  shows "remove_small (map fst seg) seg =
           Inr (filter (\<lambda>(p, xs). \<not> length xs < min_vertices) seg)"
proof -
  have "filter (\<lambda>(p, xs). p \<in> set (map fst seg) \<longrightarrow> \<not> length xs < min_vertices) seg =
        filter (\<lambda>(p, xs). \<not> length xs < min_vertices) seg"
    by (intro filter_cong) force+
  with remove_small_filter_gen [OF assms, of "map fst seg"] assms show ?thesis by simp
qed

lemma set_update_distinct:
  "distinct (map fst al) \<Longrightarrow> map_of al k = Some v \<Longrightarrow>
   set (AList.update k v' al) = insert (k, v') (set al - {(k, v)})"
proof (induction al)
  case Nil
  then show ?case by simp
next
  case (Cons entry al)
  obtain a b where entry: "entry = (a, b)" by (cases entry)
  show ?case
  proof (cases "a = k")
    case True
    with Cons.prems entry have "b = v" "k \<notin> fst ` set al" by auto
    then have "(k, v) \<notin> set al" by force
    with True entry \<open>b = v\<close> show ?thesis by auto
  next
    case False
    with Cons.prems entry have "map_of al k = Some v" "distinct (map fst al)" by auto
    from Cons.IH [OF this(2,1)] False entry show ?thesis by auto
  qed
qed

lemma assign_vertices_flat:
  "\<forall>(i, v, h)\<in>set items. h = NaN \<Longrightarrow>
   assign_vertices items
     [(''body'', acc), (''left_arm'', []), (''right_arm'', []),
      (''left_leg'', []), (''right_leg'', []), (''face_internal'', [])] =
   Inr [(''body'', acc @ map fst items), (''left_arm'', []), (''right_arm'', []),
        (''left_leg'', []), (''right_leg'', []), (''face_internal'', [])]"
proof (induction items arbitrary: acc)
  case Nil
  then show ?case by simp
next
  case (Cons item items)
  obtain i v h where item: "item = (i, v, h)" by (cases item)
  with Cons.prems have h: "h = NaN" and rest: "\<forall>(i, v, h)\<in>set items. h = NaN" by auto
  from Cons.IH [OF rest, of "acc @ [i]"] show ?case
    by (simp add: item h assign_part_NaN seg_append_def)
qed

lemma normalize_mesh_fields:
  "vertices (normalize_mesh t) = map (\<lambda>v. vsub v (mean_axis0 (vertices t))) (vertices t)"
  "vertex_normals (normalize_mesh t) = vertex_normals t"
  "segmentation (normalize_mesh t) = segmentation t"
  by (simp_all add: normalize_mesh_def Let_def)

lemma unassigned_props:
  "set (unassigned n seg) = {0..<n} - assigned_vertices seg" "distinct (unassigned n seg)"
  by (auto simp: unassigned_def)

lemma assigned_vertices_Union: "assigned_vertices seg = (\<Union>(p, xs)\<in>set seg. set xs)"
  by (auto simp: assigned_vertices_def)

lemma post_process_cases:
  assumes d: "distinct (map fst (segmentation t))"
    and run: "post_process_segmentation t = Inr t'"
  shows "\<exists>seg2 un. seg2 = filter (\<lambda>(p, xs). \<not> length xs < min_vertices) (segmentation t)
      \<and> un = unassigned (length (vertices t)) seg2
      \<and> vertices t' = vertices t
      \<and> ((un = [] \<and> segmentation t' = seg2)
          \<or> (un \<noteq> [] \<and> (\<exists>xs. map_of seg2 ''body'' = Some xs
                \<and> segmentation t' = AList.update ''body'' (xs @ un) seg2)))"
  using run remove_small_filter [OF d]
  by (auto simp: post_process_segmentation_def Let_def split: if_splits option.splits)

lemma post_process_partition:
  assumes d: "distinct (map fst (segmentation t))"
    and each: "\<forall>(p, xs)\<in>set (segmentation t). distinct xs \<and> set xs \<subseteq> {0..<length (vertices t)}"
    and disj: "\<forall>(p, xs)\<in>set (segmentation t). \<forall>(q, ys)\<in>set (segmentation t).
                 p \<noteq> q \<longrightarrow> set xs \<inter> set ys = {}"
    and run: "post_process_segmentation t = Inr t'"
  shows "distinct (map fst (segmentation t'))"
    and "(\<Union>(p, xs)\<in>set (segmentation t'). set xs) = {0..<length (vertices t)}"
    and "\<forall>(p, xs)\<in>set (segmentation t'). distinct xs"
    and "\<forall>(p, xs)\<in>set (segmentation t'). \<forall>(q, ys)\<in>set (segmentation t').
           p \<noteq> q \<longrightarrow> set xs \<inter> set ys = {}"
proof -
  let ?n = "length (vertices t)"
  define seg2 where "seg2 = filter (\<lambda>(p, xs). \<not> length xs < min_vertices) (segmentation t)"
  define un where "un = unassigned ?n seg2"
  have sub: "set seg2 \<subseteq> set (segmentation t)" by (auto simp: seg2_def)
  have d2: "distinct (map fst seg2)" using d by (simp add: seg2_def distinct_map_filter)
  have each2: "\<And>p xs. (p, xs) \<in> set seg2 \<Longrightarrow> distinct xs \<and> set xs \<subseteq> {0..<?n}"
    using each sub by auto
  have disj2: "\<And>p xs q ys. (p, xs) \<in> set seg2 \<Longrightarrow> (q, ys) \<in> set seg2 \<Longrightarrow> p \<noteq> q
                 \<Longrightarrow> set xs \<inter> set ys = {}"
    using disj sub by blast
  have un_set: "set un = {0..<?n} - (\<Union>(p, xs)\<in>set seg2. set xs)" and un_d: "distinct un"
    by (simp_all add: un_def unassigned_props assigned_vertices_Union)
  have cover2: "(\<Union>(p, xs)\<in>set seg2. set xs) \<subseteq> {0..<?n}" using each2 by auto
  from post_process_cases [OF d run] have
    cases: "(un = [] \<and> segmentation t' = seg2)
          \<or> (un \<noteq> [] \<and> (\<exists>xs. map_of seg2 ''body'' = Some xs
                \<and> segmentation t' = AList.update ''body'' (xs @ un) seg2))"
    unfolding seg2_def un_def by blast
  have "distinct (map fst (segmentation t'))
      \<and> (\<Union>(p, xs)\<in>set (segmentation t'). set xs) = {0..<?n}
      \<and> (\<forall>(p, xs)\<in>set (segmentation t'). distinct xs)
      \<and> (\<forall>(p, xs)\<in>set (segmentation t'). \<forall>(q, ys)\<in>set (segmentation t').
           p \<noteq> q \<longrightarrow> set xs \<inter> set ys = {})"
    using cases
  proof
    assume a: "un = [] \<and> segmentation t' = seg2"
    then have "{0..<?n} - (\<Union>(p, xs)\<in>set seg2. set xs) = {}" using un_set by simp
    with cover2 have "(\<Union>(p, xs)\<in>set seg2. set xs) = {0..<?n}" by blast
    moreover have "\<forall>(p, xs)\<in>set seg2. distinct xs" using each2 by auto
    moreover have "\<forall>(p, xs)\<in>set seg2. \<forall>(q, ys)\<in>set seg2. p \<noteq> q \<longrightarrow> set xs \<inter> set ys = {}"
      using disj2 by blast
    ultimately show ?thesis using a d2 by simp
  next
    assume "un \<noteq> [] \<and> (\<exists>xs. map_of seg2 ''body'' = Some xs
                \<and> segmentation t' = AList.update ''body'' (xs @ un) seg2)"
    then obtain bs where bs: "map_of seg2 ''body'' = Some bs"
      and t': "segmentation t' = AList.update ''body'' (bs @ un) seg2" by blast
    have mem: "(''body'', bs) \<in> set seg2" using bs by (rule map_of_SomeD)
    have set': "set (segmentation t') = insert (''body'', bs @ un) (set seg2 - {(''body'', bs)})"
      unfolding t' by (rule set_update_distinct [OF d2 bs])
    have other: "(p, xs) \<in> set seg2 - {(''body'', bs)} \<Longrightarrow> p \<noteq> ''body''" for p xs
      using d2 mem by (metis DiffD1 DiffD2 eq_key_imp_eq_value singletonI)
    have d': "distinct (map fst (segmentation t'))"
      unfolding t' using d2 by (simp add: distinct_update)
    have bs_un: "set bs \<inter> set un = {}" using un_set mem by auto
    have un_other: "(p, xs) \<in> set seg2 \<Longrightarrow> set xs \<inter> set un = {}" for p xs
      using un_set by auto
    have union: "(\<Union>(p, xs)\<in>set (segmentation t'). set xs) = {0..<?n}"
    proof -
      have "(\<Union>(p, xs)\<in>set (segmentation t'). set xs) =
              set un \<union> (\<Union>(p, xs)\<in>set seg2. set xs)"
        unfolding set' using mem by auto
      also have "\<dots> = {0..<?n}" using un_set cover2 by blast
      finally show ?thesis .
    qed
    have "distinct (bs @ un)" using each2 [OF mem] un_d bs_un by simp
    then have each': "\<forall>(p, xs)\<in>set (segmentation t'). distinct xs"
      unfolding set' using each2 by auto
    have disj': "\<forall>(p, xs)\<in>set (segmentation t'). \<forall>(q, ys)\<in>set (segmentation t').
           p \<noteq> q \<longrightarrow> set xs \<inter> set ys = {}"
    proof (intro ballI, clarify)
      fix p xs q ys
      assume p: "(p, xs) \<in> set (segmentation t')" and q: "(q, ys) \<in> set (segmentation t')"
        and ne: "p \<noteq> q"
      from p have "(p, xs) = (''body'', bs @ un) \<or> (p, xs) \<in> set seg2 - {(''body'', bs)}"
        unfolding set' by blast
      then have pc: "(p = ''body'' \<and> xs = bs @ un) \<or> ((p, xs) \<in> set seg2 \<and> p \<noteq> ''body'')"
        using other [of p xs] by blast
      from q have "(q, ys) = (''body'', bs @ un) \<or> (q, ys) \<in> set seg2 - {(''body'', bs)}"
        unfolding set' by blast
      then have qc: "(q = ''body'' \<and> ys = bs @ un) \<or> ((q, ys) \<in> set seg2 \<and> q \<noteq> ''body'')"
        using other [of q ys] by blast
      from pc qc ne show "set xs \<inter> set ys = {}"
      proof (elim disjE conjE)
        assume "p = ''body''" "q = ''body''"
        with ne show ?thesis by simp
      next
        assume a: "p = ''body''" "xs = bs @ un" "(q, ys) \<in> set seg2" "q \<noteq> ''body''"
        from disj2 [OF mem a(3)] a(4) have "set bs \<inter> set ys = {}" by auto
        moreover from un_other [OF a(3)] have "set ys \<inter> set un = {}" .
        ultimately show ?thesis using a(2) by auto
      next
        assume a: "(p, xs) \<in> set seg2" "p \<noteq> ''body''" "q = ''body''" "ys = bs @ un"
        from disj2 [OF a(1) mem] a(2) have "set xs \<inter> set bs = {}" by auto
        moreover from un_other [OF a(1)] have "set xs \<inter> set un = {}" .
        ultimately show ?thesis using a(4) by auto
      next
        assume "(p, xs) \<in> set seg2" "(q, ys) \<in> set seg2"
        with ne show ?thesis by (rule disj2 [rotated 2])
      qed
    qed
    from d' union each' disj' show ?thesis by blast
  qed
  then show "distinct (map fst (segmentation t'))"
    and "(\<Union>(p, xs)\<in>set (segmentation t'). set xs) = {0..<length (vertices t)}"
    and "\<forall>(p, xs)\<in>set (segmentation t'). distinct xs"
    and "\<forall>(p, xs)\<in>set (segmentation t'). \<forall>(q, ys)\<in>set (segmentation t').
           p \<noteq> q \<longrightarrow> set xs \<inter> set ys = {}"
    by blast+
qed

subsection \<open>The partition property\<close>

lemma geometric_assignment_Inr:
  assumes "geometric_assignment t0 = Inr t"
  shows "\<exists>bmin bmax seg.
           bbox_min_y (vertices (normalize_mesh t0)) = Inr bmin
         \<and> bbox_max_y (vertices (normalize_mesh t0)) = Inr bmax
         \<and> assign_vertices
              (zip [0..<length (vertices t0)]
                 (zip (vertices (normalize_mesh t0))
                    (normalized_heights (vertices (normalize_mesh t0)) bmin (bmax - bmin))))
              (init_parts (segmentation t0)) = Inr seg
         \<and> t = (normalize_mesh t0)\<lparr>segmentation := seg\<rparr>"
  using assms
  by (auto simp: geometric_assignment_def Let_def normalize_mesh_fields normalized_heights_def
           split: sum.splits)

lemma geometric_assignment_fresh:
  assumes "geometric_assignment (tool_init vs ns) = Inr t"
  shows "length (vertices t) = length vs"
    and "distinct (map fst (segmentation t))"
    and "\<forall>(p, xs)\<in>set (segmentation t). distinct xs \<and> set xs \<subseteq> {0..<length vs}"
    and "\<forall>(p, xs)\<in>set (segmentation t). \<forall>(q, ys)\<in>set (segmentation t).
           p \<noteq> q \<longrightarrow> set xs \<inter> set ys = {}"
proof -
  let ?t0 = "tool_init vs ns"
  from geometric_assignment_Inr [OF assms] obtain bmin bmax seg where
    run: "assign_vertices
              (zip [0..<length (vertices ?t0)]
                 (zip (vertices (normalize_mesh ?t0))
                    (normalized_heights (vertices (normalize_mesh ?t0)) bmin (bmax - bmin))))
              (init_parts (segmentation ?t0)) = Inr seg"
    and t: "t = (normalize_mesh ?t0)\<lparr>segmentation := seg\<rparr>"
    by blast
  define items where "items = zip [0..<length (vertices ?t0)]
                 (zip (vertices (normalize_mesh ?t0))
                    (normalized_heights (vertices (normalize_mesh ?t0)) bmin (bmax - bmin)))"
  have fsts: "map fst items = [0..<length vs]"
    unfolding items_def
    by (simp add: normalize_mesh_fields normalized_heights_def tool_init_def)
  then have di: "distinct (map fst items)" by simp
  from assign_vertices_char [OF run [folded items_def]] have
    keys: "map fst seg = map fst (init_parts [])" and
    look: "\<And>p. map_of seg p =
             map_option (\<lambda>xs. xs @ assigned_to p items) (map_of (init_parts []) p)"
    by (simp_all add: tool_init_def)
  have dk: "distinct (map fst seg)" unfolding keys by (simp add: init_parts_fresh)
  have val: "xs = assigned_to p items" if "(p, xs) \<in> set seg" for p xs
  proof -
    from that dk have "map_of seg p = Some xs" by simp
    with look [of p] show ?thesis by (auto simp: init_parts_fresh split: if_splits)
  qed
  show "length (vertices t) = length vs"
    by (simp add: t normalize_mesh_fields tool_init_def)
  show "distinct (map fst (segmentation t))" using dk by (simp add: t)
  show "\<forall>(p, xs)\<in>set (segmentation t). distinct xs \<and> set xs \<subseteq> {0..<length vs}"
  proof (clarify, intro conjI)
    fix p xs assume "(p, xs) \<in> set (segmentation t)"
    then have xs: "xs = assigned_to p items" using val by (simp add: t)
    show "distinct xs" unfolding xs using di by (rule assigned_to_distinct)
    show "set xs \<subseteq> {0..<length vs}"
      unfolding xs using assigned_to_subset [of p items] fsts by simp
  qed
  show "\<forall>(p, xs)\<in>set (segmentation t). \<forall>(q, ys)\<in>set (segmentation t).
           p \<noteq> q \<longrightarrow> set xs \<inter> set ys = {}"
  proof (clarify)
    fix p xs q ys
    assume p: "(p, xs) \<in> set (segmentation t)" and q: "(q, ys) \<in> set (segmentation t)"
      and ne: "p \<noteq> q"
    from p have xs: "xs = assigned_to p items" using val [of p xs] by (simp add: t)
    from q have ys: "ys = assigned_to q items" using val [of q ys] by (simp add: t)
    from assigned_to_disjoint [OF di ne] show "set xs \<inter> set ys = {}" unfolding xs ys .
  qed
qed

lemma torso_geo:
  "map_sum id segmentation (geometric_segmentation (tool_init small_torso_mesh ns)) =
     Inr [(''body'', [2, 3, 4, 5, 6, 7, 8, 9, 10, 11, 0, 1])]"
  by (simp add: geo_eval small_torso_mesh_def)

text \<open>
  Claim C1. Whenever \<open>geometric_segmentation\<close>, called on a freshly constructed tool,
  returns, the vertex lists of the returned labels cover exactly the index range
  \<open>[0, N)\<close> of the mesh and the lists of different labels are disjoint; the labels
  are distinct and no list repeats an index, so every vertex index is in exactly one
  label's list. A call that returns has at least one vertex; the statement holds for
  every height, in particular for every positive one. (The call does not return when
  post-processing raises KeyError, see claim C5.)
\<close>

theorem geometric_partition:
  assumes "geometric_segmentation (tool_init vs ns) = Inr t'"
  shows "(\<Union>(p, xs)\<in>set (segmentation t'). set xs) = {0..<length vs}
       \<and> (\<forall>(p, xs)\<in>set (segmentation t'). \<forall>(q, ys)\<in>set (segmentation t').
             p \<noteq> q \<longrightarrow> set xs \<inter> set ys = {})
       \<and> distinct (map fst (segmentation t'))
       \<and> (\<forall>(p, xs)\<in>set (segmentation t'). distinct xs)"
proof -
  from assms obtain t where
    ga: "geometric_assignment (tool_init vs ns) = Inr t" and
    pp: "post_process_segmentation t = Inr t'"
    by (auto simp: geometric_segmentation_def split: sum.splits)
  note fresh = geometric_assignment_fresh [OF ga]
  have each: "\<forall>(p, xs)\<in>set (segmentation t).
                distinct xs \<and> set xs \<subseteq> {0..<length (vertices t)}"
    using fresh(3) by (simp add: fresh(1))
  from post_process_partition [OF fresh(2) each fresh(4) pp] fresh(1)
  show ?thesis by simp
qed

theorem geometric_partition_witness:
  "map_sum id segmentation
     (geometric_segmentation (tool_init small_torso_mesh small_torso_normals)) =
     Inr [(''body'', [2, 3, 4, 5, 6, 7, 8, 9, 10, 11, 0, 1])]
   \<and> (\<Union>(p, xs)\<in>set [(''body'', [2, 3, 4, 5, 6, 7, 8, 9, 10, 11, 0, 1::nat])]. set xs) =
       {0..<length small_torso_mesh}"
proof -
  from torso_geo [of small_torso_normals] obtain t' where
    h: "geometric_segmentation (tool_init small_torso_mesh small_torso_normals) = Inr t'"
    and seg: "segmentation t' = [(''body'', [2, 3, 4, 5, 6, 7, 8, 9, 10, 11, 0, 1])]"
    by (cases "geometric_segmentation (tool_init small_torso_mesh small_torso_normals)") auto
  from geometric_partition [OF h] have
    "(\<Union>(p, xs)\<in>set (segmentation t'). set xs) = {0..<length small_torso_mesh}"
    by blast
  with torso_geo [of small_torso_normals] seg show ?thesis by simp
qed

subsection \<open>Degenerate meshes\<close>

lemma geometric_segmentation_empty:
  "vertices t = [] \<Longrightarrow> geometric_segmentation t = Inl ValueError"
  by (simp add: geometric_segmentation_def geometric_assignment_def normalize_mesh_fields)

lemma geometric_assignment_flat:
  assumes bmin: "bbox_min_y (vertices (normalize_mesh (tool_init vs ns))) = Inr bmin"
    and bmax: "bbox_max_y (vertices (normalize_mesh (tool_init vs ns))) = Inr bmax"
    and flat: "bmax - bmin \<le> 0"
  shows "geometric_assignment (tool_init vs ns) =
           Inr ((normalize_mesh (tool_init vs ns))
                  \<lparr>segmentation :=
                     [(''body'', [0..<length vs]), (''left_arm'', []), (''right_arm'', []),
                      (''left_leg'', []), (''right_leg'', []), (''face_internal'', [])]\<rparr>)"
proof -
  let ?t = "normalize_mesh (tool_init vs ns)"
  from zero_height_all_min(1) [OF bmin bmax flat] have h0: "bmax - bmin = 0" .
  have len: "length (vertices ?t) = length vs"
    by (simp add: normalize_mesh_fields tool_init_def)
  let ?hs = "normalized_heights (vertices ?t) bmin (bmax - bmin)"
  have hs: "?hs = map (\<lambda>v. NaN) (vertices ?t)"
    unfolding h0 by (rule normalized_heights_flat)
  let ?items = "zip [0..<length ?hs] (zip (vertices ?t) ?hs)"
  have fsts: "map fst ?items = [0..<length vs]" by (simp add: hs len)
  have nan: "\<forall>(i, v, h)\<in>set ?items. h = NaN"
    unfolding hs by (auto dest!: set_zip_rightD)
  have "assign_vertices ?items (init_parts (segmentation ?t)) =
          Inr [(''body'', [] @ map fst ?items), (''left_arm'', []), (''right_arm'', []),
               (''left_leg'', []), (''right_leg'', []), (''face_internal'', [])]"
    using assign_vertices_flat [OF nan, of "[]"]
    by (simp add: normalize_mesh_fields tool_init_def init_parts_fresh)
  then show ?thesis
    using bmin bmax fsts by (simp add: geometric_assignment_def Let_def)
qed

lemma unassigned_all: "unassigned n [(p, [0..<n])] = []"
  by (simp add: unassigned_def assigned_vertices_def)

text \<open>
  Claim C2 (as amended). \<open>geometric_segmentation\<close> fails, with the ValueError of the
  bounding-box reduction, when the mesh has no vertex. There is no check of the
  height: when the height is 0 (it is never negative) every normalised height is NaN,
  no band matches, the fallback gives body to every vertex, and on a fresh tool with
  at least 10 vertices the call returns the single label body with all indices.
\<close>

theorem degenerate_mesh_behaviour:
  "(vertices t = [] \<longrightarrow> geometric_segmentation t = Inl ValueError)
   \<and> (bbox_min_y (vertices (normalize_mesh (tool_init vs ns))) = Inr bmin
      \<and> bbox_max_y (vertices (normalize_mesh (tool_init vs ns))) = Inr bmax
      \<and> bmax - bmin \<le> 0 \<and> 10 \<le> length vs
      \<longrightarrow> geometric_segmentation (tool_init vs ns) =
            Inr ((normalize_mesh (tool_init vs ns))
                   \<lparr>segmentation := [(''body'', [0..<length vs])]\<rparr>))"
proof (intro conjI impI)
  assume "vertices t = []"
  then show "geometric_segmentation t = Inl ValueError"
    by (rule geometric_segmentation_empty)
next
  assume a: "bbox_min_y (vertices (normalize_mesh (tool_init vs ns))) = Inr bmin
      \<and> bbox_max_y (vertices (normalize_mesh (tool_init vs ns))) = Inr bmax
      \<and> bmax - bmin \<le> 0 \<and> 10 \<le> length vs"
  then have ga: "geometric_assignment (tool_init vs ns) =
           Inr ((normalize_mesh (tool_init vs ns))
                  \<lparr>segmentation :=
                     [(''body'', [0..<length vs]), (''left_arm'', []), (''right_arm'', []),
                      (''left_leg'', []), (''right_leg'', []), (''face_internal'', [])]\<rparr>)"
    by (intro geometric_assignment_flat) auto
  have len: "length (vertices (normalize_mesh (tool_init vs ns))) = length vs"
    by (simp add: normalize_mesh_fields tool_init_def)
  from a have big: "\<not> length vs < 10" by simp
  show "geometric_segmentation (tool_init vs ns) =
            Inr ((normalize_mesh (tool_init vs ns))
                   \<lparr>segmentation := [(''body'', [0..<length vs])]\<rparr>)"
    using big
    by (simp add: geometric_segmentation_def ga post_process_segmentation_def
          min_vertices_def len unassigned_all)
qed

text \<open>A flat mesh of ten vertices has height 0 and is segmented without an error.\<close>

theorem degenerate_mesh_counterexample:
  "bbox_min_y (vertices (normalize_mesh (tool_init flat_mesh []))) = Inr 0
   \<and> bbox_max_y (vertices (normalize_mesh (tool_init flat_mesh []))) = Inr 0
   \<and> map_sum id segmentation (geometric_segmentation (tool_init flat_mesh [])) =
       Inr [(''body'', [0, 1, 2, 3, 4, 5, 6, 7, 8, 9])]"
  by (simp add: geo_eval flat_mesh_def)

theorem degenerate_mesh_behaviour_witness:
  "geometric_segmentation (tool_init [] []) = Inl ValueError
   \<and> geometric_segmentation (tool_init flat_mesh []) =
       Inr ((normalize_mesh (tool_init flat_mesh []))
              \<lparr>segmentation := [(''body'', [0..<length flat_mesh])]\<rparr>)"
proof -
  have e: "vertices (tool_init [] []) = []" by (simp add: tool_init_def)
  have h1: "bbox_min_y (vertices (normalize_mesh (tool_init flat_mesh []))) = Inr 0"
    by (simp add: geo_eval flat_mesh_def)
  have h2: "bbox_max_y (vertices (normalize_mesh (tool_init flat_mesh []))) = Inr 0"
    by (simp add: geo_eval flat_mesh_def)
  have h3: "(0::real) - 0 \<le> 0" by simp
  have h4: "10 \<le> length flat_mesh" by (simp add: flat_mesh_def)
  from degenerate_mesh_behaviour [of "tool_init [] []" flat_mesh "[]" 0 0] e h1 h2 h3 h4
  show ?thesis by blast
qed

subsection \<open>Small parts\<close>

text \<open>When the call returns, a part that ended the assignment loop with fewer than 10
  vertices is not a label of the result, and its members are listed under body.\<close>

lemma small_parts_merged:
  assumes ga: "geometric_assignment (tool_init vs ns) = Inr t"
    and pp: "post_process_segmentation t = Inr t'"
    and mem: "(p, xs) \<in> set (segmentation t)" and small: "length xs < min_vertices"
  shows "p \<notin> fst ` set (segmentation t')"
    and "xs \<noteq> [] \<Longrightarrow> \<exists>bs. map_of (segmentation t') ''body'' = Some bs \<and> set xs \<subseteq> set bs"
proof -
  note fresh = geometric_assignment_fresh [OF ga]
  let ?n = "length (vertices t)"
  from post_process_cases [OF fresh(2) pp] obtain seg2 un where
    seg2: "seg2 = filter (\<lambda>(p, xs). \<not> length xs < min_vertices) (segmentation t)" and
    un: "un = unassigned ?n seg2" and
    cases: "(un = [] \<and> segmentation t' = seg2)
          \<or> (un \<noteq> [] \<and> (\<exists>bs. map_of seg2 ''body'' = Some bs
                \<and> segmentation t' = AList.update ''body'' (bs @ un) seg2))"
    by blast
  have sub: "set seg2 \<subseteq> set (segmentation t)" by (auto simp: seg2)
  have absent: "p \<notin> fst ` set seg2"
  proof
    assume "p \<in> fst ` set seg2"
    then obtain ys where ys: "(p, ys) \<in> set seg2" by auto
    with sub have "(p, ys) \<in> set (segmentation t)" by auto
    from eq_key_imp_eq_value [OF fresh(2) this mem] have "ys = xs" .
    with ys small show False by (simp add: seg2)
  qed
  have xs_un: "set xs \<subseteq> set un"
  proof
    fix i assume i: "i \<in> set xs"
    from fresh(3) mem have "set xs \<subseteq> {0..<length vs}" by auto
    with i have range: "i \<in> {0..<?n}" by (auto simp: fresh(1))
    have "i \<notin> assigned_vertices seg2"
    proof
      assume "i \<in> assigned_vertices seg2"
      then obtain q ys where q: "(q, ys) \<in> set seg2" "i \<in> set ys"
        by (auto simp: assigned_vertices_Union)
      with absent have "q \<noteq> p" by force
      moreover from q sub have "(q, ys) \<in> set (segmentation t)" by auto
      ultimately have "set xs \<inter> set ys = {}" using fresh(4) mem by blast
      with i q show False by blast
    qed
    with range show "i \<in> set un" by (simp add: un unassigned_props)
  qed
  from cases show "p \<notin> fst ` set (segmentation t')"
  proof
    assume "un = [] \<and> segmentation t' = seg2"
    with absent show ?thesis by simp
  next
    assume "un \<noteq> [] \<and> (\<exists>bs. map_of seg2 ''body'' = Some bs
                \<and> segmentation t' = AList.update ''body'' (bs @ un) seg2)"
    then obtain bs where bs: "map_of seg2 ''body'' = Some bs"
      and t': "segmentation t' = AList.update ''body'' (bs @ un) seg2" by blast
    from bs have "''body'' \<in> fst ` set seg2" by (force dest: map_of_SomeD)
    with absent have "p \<noteq> ''body''" by auto
    with absent show ?thesis by (simp add: t' dom_update)
  qed
  show "\<exists>bs. map_of (segmentation t') ''body'' = Some bs \<and> set xs \<subseteq> set bs" if "xs \<noteq> []"
    using cases
  proof
    assume "un = [] \<and> segmentation t' = seg2"
    with xs_un that show ?thesis by auto
  next
    assume "un \<noteq> [] \<and> (\<exists>bs. map_of seg2 ''body'' = Some bs
                \<and> segmentation t' = AList.update ''body'' (bs @ un) seg2)"
    then obtain bs where
      t': "segmentation t' = AList.update ''body'' (bs @ un) seg2" by blast
    have "map_of (segmentation t') ''body'' = Some (bs @ un)"
      by (simp add: t' update_conv')
    with xs_un show ?thesis by auto
  qed
qed

text \<open>
  Claim C5. Members of a part with fewer than 10 vertices are to end up under body,
  body being created when it is missing. The code does the first whenever it returns
  (\<open>small_parts_merged\<close>; \<open>torso_geo\<close> is an instance), but it never creates body: on a
  tetrahedron every part, body included, is below the threshold and is deleted, and
  the append to body then fails with KeyError.
\<close>

theorem small_body_keyerror:
  "geometric_segmentation (tool_init [(0, 0, 0), (1, 0, 0), (0, 1, 0), (0, 0, 1)] []) = Inl KeyError"
  by code_simp

end
